theory Spec2Isabelle
  imports Complex_Main "HOL-Library.AList"
begin

section \<open>Name tables of gp\_regression.py\<close>

text \<open>
  Python dictionaries keep insertion order and \<open>update\<close> overwrites the value of a
  key that is present and appends a key that is not, so a dictionary is an
  association list and \<open>dict.update\<close> folds \<open>AList.update\<close> over the new items.
\<close>

type_synonym ('k, 'v) py_dict = "('k \<times> 'v) list"

definition dict_update :: "('k, 'v) py_dict \<Rightarrow> ('k \<times> 'v) list \<Rightarrow> ('k, 'v) py_dict" where
  "dict_update d kvs = fold (\<lambda>(k, v) acc. AList.update k v acc) kvs d"

text \<open>A dictionary comprehension inserts its pairs, in order, into an empty dictionary.\<close>

definition dict_comp :: "('k \<times> 'v) list \<Rightarrow> ('k, 'v) py_dict" where
  "dict_comp kvs = dict_update [] kvs"

definition TRIG_TOKENS :: "string list" where
  "TRIG_TOKENS = [''sin'', ''cos'', ''tan'', ''csc'', ''sec'', ''cot'']"

definition INVERSE_TOKENS_base :: "(string, string) py_dict" where
  "INVERSE_TOKENS_base =
     [(''exp'', ''log''), (''neg'', ''neg''), (''inv'', ''inv''), (''sqrt'', ''n2'')]"

text \<open>\<open>INVERSE_TOKENS.update({t : "arc" + t for t in TRIG_TOKENS})\<close>\<close>

definition INVERSE_TOKENS_trig :: "(string, string) py_dict" where
  "INVERSE_TOKENS_trig =
     dict_update INVERSE_TOKENS_base (dict_comp (map (\<lambda>t. (t, ''arc'' @ t)) TRIG_TOKENS))"

text \<open>\<open>INVERSE_TOKENS.update({v : k for k, v in INVERSE_TOKENS.items()})\<close>\<close>

definition INVERSE_TOKENS :: "(string, string) py_dict" where
  "INVERSE_TOKENS =
     dict_update INVERSE_TOKENS_trig (dict_comp (map (\<lambda>(k, v). (v, k)) INVERSE_TOKENS_trig))"

text \<open>\<open>INVERSE_TOKENS[name]\<close>, defined exactly when \<open>name in INVERSE_TOKENS\<close>.\<close>

definition inverse_of :: "string \<Rightarrow> string option" where
  "inverse_of name = map_of INVERSE_TOKENS name"

section \<open>The name-based checks\<close>

text \<open>
  \<open>check_inv\<close> walks \<open>enumerate(names[:-1])\<close>. The read \<open>names[i+1]\<close> is always in
  range there (\<open>i < len(names) - 1\<close>), so it cannot raise.
\<close>

fun check_inv_loop :: "string list \<Rightarrow> (nat \<times> string) list \<Rightarrow> bool" where
  "check_inv_loop names [] = False"
| "check_inv_loop names ((i, name) # rest) =
     (if inverse_of name \<noteq> None \<and> Some (names ! (i + 1)) = inverse_of name then True
      else check_inv_loop names rest)"

definition check_inv :: "string list \<Rightarrow> bool" where
  "check_inv names = check_inv_loop names (enumerate 0 (butlast names))"

text \<open>
  \<open>UNARY_TOKENS\<close> and \<open>BINARY_TOKENS\<close> are imported from \<open>dsr.functions\<close>; the
  checks only test membership, so they are parameters here.

  The state of the loop of \<open>check_trig\<close> is the pair \<open>(trig_descendant,
  trig_dangling)\<close>; \<open>trig_dangling\<close> is only read after it has been assigned.
  The result of a step is \<open>None\<close> where the loop returns \<open>True\<close>.
\<close>

record name_sets =
  UNARY_TOKENS :: "string set"
  BINARY_TOKENS :: "string set"

definition check_trig_step :: "name_sets \<Rightarrow> bool \<times> int \<Rightarrow> string \<Rightarrow> (bool \<times> int) option" where
  "check_trig_step S st name =
     (case st of (trig_descendant, trig_dangling) \<Rightarrow>
        if name \<in> set TRIG_TOKENS then
          (if trig_descendant then None else Some (True, 1))
        else if trig_descendant then
          (let d = (if name \<in> BINARY_TOKENS S then trig_dangling + 1
                    else if name \<notin> UNARY_TOKENS S then trig_dangling - 1
                    else trig_dangling)
           in if d = 0 then Some (False, d) else Some (True, d))
        else Some (trig_descendant, trig_dangling))"

fun check_trig_loop :: "name_sets \<Rightarrow> bool \<times> int \<Rightarrow> string list \<Rightarrow> bool" where
  "check_trig_loop S st [] = False"
| "check_trig_loop S st (name # rest) =
     (case check_trig_step S st name of
        None \<Rightarrow> True
      | Some st' \<Rightarrow> check_trig_loop S st' rest)"

definition check_trig :: "name_sets \<Rightarrow> string list \<Rightarrow> bool" where
  "check_trig S names = check_trig_loop S (False, 0) names"

subsection \<open>What the nested-trig check is specified to decide\<close>

text \<open>
  The specification's wording, independent of the loop above: a token adds one open
  slot when it is binary, none when it is unary and closes one otherwise; the subtree
  of the trig token at position \<open>i\<close> has, after position \<open>k\<close>, the local balance
  \<open>1 + \<Sum> delta\<close> over the positions \<open>i+1 .. k\<close>; a sequence nests trig tokens when a trig
  token stands at some \<open>j\<close> and an earlier trig token's balance has been nonzero at
  every position strictly between them.
\<close>

definition delta :: "name_sets \<Rightarrow> string \<Rightarrow> int" where
  "delta S name =
     (if name \<in> BINARY_TOKENS S then 1 else if name \<notin> UNARY_TOKENS S then - 1 else 0)"

definition local_balance :: "name_sets \<Rightarrow> string list \<Rightarrow> nat \<Rightarrow> nat \<Rightarrow> int" where
  "local_balance S names i k =
     1 + sum_list (map (delta S) (take (k - i) (drop (Suc i) names)))"

definition nested_trig :: "name_sets \<Rightarrow> string list \<Rightarrow> bool" where
  "nested_trig S names \<longleftrightarrow>
     (\<exists>j < length names. \<exists>i < j.
        names ! i \<in> set TRIG_TOKENS \<and> names ! j \<in> set TRIG_TOKENS \<and>
        (\<forall>k < j. i < k \<longrightarrow> local_balance S names i k \<noteq> 0))"

text \<open>
  The same condition seen from inside an open subtree with balance \<open>d\<close>: a trig token
  is reached in \<open>xs\<close> before the balance returns to zero.
\<close>

definition open_from :: "name_sets \<Rightarrow> int \<Rightarrow> string list \<Rightarrow> bool" where
  "open_from S d xs \<longleftrightarrow>
     (\<exists>j < length xs. xs ! j \<in> set TRIG_TOKENS \<and>
        (\<forall>k < j. d + sum_list (map (delta S) (take (Suc k) xs)) \<noteq> 0))"

text \<open>The token names of the specification's scenario library.\<close>

definition scenario_sets :: name_sets where
  "scenario_sets = \<lparr>UNARY_TOKENS = {''sin'', ''log'', ''exp''}, BINARY_TOKENS = {''add''}\<rparr>"

section \<open>DEAP individuals\<close>

text \<open>
  A DEAP individual (\<open>gp.PrimitiveTree\<close>) is the list of its nodes in pre-order. A node
  is a \<open>gp.Primitive\<close> with a name and an arity or a \<open>gp.Terminal\<close> with a name and a
  value; the value of a terminal is a string (the renamed argument, or the name under
  which a constant was registered) or a float. Floats are only stored and copied by
  the code modelled here, so a finite float is the real number it denotes.

  \<open>DEAP_to_tokens\<close> tests the name of a terminal with \<open>is\<close>, which compares the
  identity of the string objects, not their characters. All occurrences of a literal
  such as \<open>"mutable_const"\<close> in the module denote one interned string object, and a
  name assigned from such a literal is that object; a name built at run time
  (\<open>"ARG{}".format(i)\<close>) or read back from a pickle is a different object, even with
  the same characters. A terminal therefore carries, besides the characters of its
  name, whether the name is the interned object.
\<close>

datatype py_error =
  IndexError | KeyError | ValueError | UnboundLocalError | TypeError | AttributeError |
  OverflowError

datatype tvalue = VStr string | VNum real

datatype node =
  Primitive (name: string) nat
| Terminal (name: string) tvalue (name_interned: bool)

type_synonym individual = "node list"

section \<open>The constraint decorator\<close>

text \<open>
  \<open>random.choice(seq)\<close> raises \<open>IndexError\<close> on an empty sequence and otherwise
  returns \<open>seq[k]\<close> for a \<open>k < len(seq)\<close> taken from the generator. The generator is a
  stream of draws \<open>draws :: nat \<Rightarrow> nat\<close> and the position reached in it.
\<close>

definition random_choice :: "(nat \<Rightarrow> nat) \<Rightarrow> nat \<Rightarrow> 'a list \<Rightarrow> py_error + ('a \<times> nat)" where
  "random_choice draws pos seq =
     (if seq = [] then Inl IndexError
      else Inr (seq ! (draws pos mod length seq), pos + 1))"

record constraints =
  max_length :: int
  min_length :: int
  max_depth :: int

text \<open>
  The chain of tests inside the wrapper of \<open>checkConstraint\<close>: \<open>True\<close> where the
  individual is replaced. \<open>height\<close> is the attribute of DEAP's tree class and is a
  parameter.
\<close>

definition rejects :: "constraints \<Rightarrow> (individual \<Rightarrow> int) \<Rightarrow> name_sets \<Rightarrow> individual \<Rightarrow> bool" where
  "rejects c height S ind =
     (let l = int (length ind) in
      if l > max_length c then True
      else if l < min_length c then True
      else if height ind > max_depth c then True
      else (let names = map name ind in
            if check_inv names then True
            else if check_trig S names then True
            else False))"

text \<open>
  The loop \<open>for i, ind in enumerate(new_inds)\<close> assigns only to \<open>new_inds[i]\<close>, the
  element it is visiting, so it is a left-to-right pass that threads the generator.
\<close>

fun constraint_loop ::
  "constraints \<Rightarrow> (individual \<Rightarrow> int) \<Rightarrow> name_sets \<Rightarrow> (nat \<Rightarrow> nat) \<Rightarrow> individual list \<Rightarrow>
   nat \<Rightarrow> individual list \<Rightarrow> py_error + individual list" where
  "constraint_loop c height S draws keep_inds pos [] = Inr []"
| "constraint_loop c height S draws keep_inds pos (ind # rest) =
     (if rejects c height S ind then
        (case random_choice draws pos keep_inds of
           Inl e \<Rightarrow> Inl e
         | Inr (kept, pos') \<Rightarrow>
             (case constraint_loop c height S draws keep_inds pos' rest of
                Inl e \<Rightarrow> Inl e
              | Inr out \<Rightarrow> Inr (kept # out)))
      else
        (case constraint_loop c height S draws keep_inds pos rest of
           Inl e \<Rightarrow> Inl e
         | Inr out \<Rightarrow> Inr (ind # out)))"

text \<open>
  The wrapper. \<open>keep_inds\<close> are deep copies of the arguments, taken before the wrapped
  operator runs: values here, so whatever the operator does to its arguments in place
  does not reach them. The operator \<open>func\<close> may draw from the generator too.
\<close>

definition checkConstraint ::
  "constraints \<Rightarrow> (individual \<Rightarrow> int) \<Rightarrow> name_sets \<Rightarrow> (nat \<Rightarrow> nat) \<Rightarrow>
   (nat \<Rightarrow> individual list \<Rightarrow> individual list \<times> nat) \<Rightarrow>
   nat \<Rightarrow> individual list \<Rightarrow> py_error + individual list" where
  "checkConstraint c height S draws func pos args =
     (let keep_inds = args;
          (new_inds, pos') = func pos args
      in constraint_loop c height S draws keep_inds pos' new_inds)"

text \<open>
  The five structural constraints, stated on the individual itself and not through the
  functions that test them: at most \<open>max_length\<close> and at least \<open>min_length\<close> nodes, height
  at most \<open>max_depth\<close>, no node whose successor in pre-order is named by its registered
  inverse, and no trig node beneath another trig node.
\<close>

definition inverse_adjacent :: "string list \<Rightarrow> bool" where
  "inverse_adjacent names \<longleftrightarrow>
     (\<exists>i. Suc i < length names \<and> inverse_of (names ! i) = Some (names ! Suc i))"

definition satisfies_all :: "constraints \<Rightarrow> (individual \<Rightarrow> int) \<Rightarrow> name_sets \<Rightarrow> individual \<Rightarrow> bool" where
  "satisfies_all c height S ind \<longleftrightarrow>
     int (length ind) \<le> max_length c \<and> min_length c \<le> int (length ind) \<and>
     height ind \<le> max_depth c \<and> \<not> inverse_adjacent (map name ind) \<and>
     \<not> nested_trig S (map name ind)"

text \<open>An operator that returns one nested-trig child and one sound child.\<close>

definition scenario_child :: individual where
  "scenario_child =
     [Primitive ''add'' 2, Terminal ''ARG0'' (VStr ''x1'') False, Terminal ''ARG0'' (VStr ''x1'') False]"

definition scenario_mate :: "nat \<Rightarrow> individual list \<Rightarrow> individual list \<times> nat" where
  "scenario_mate pos args =
     ([[Primitive ''sin'' 1, Primitive ''sin'' 1, Terminal ''ARG0'' (VStr ''x1'') False],
       scenario_child], pos)"

definition scenario_constraints :: constraints where
  "scenario_constraints = \<lparr>max_length = 3, min_length = 1, max_depth = 5\<rparr>"

definition scenario_parent :: individual where
  "scenario_parent = [Primitive ''sin'' 1, Terminal ''ARG0'' (VStr ''x1'') False]"

section \<open>The token library\<close>

text \<open>
  \<open>Program.library\<close> is built by \<open>dsr.program\<close> and \<open>dsr.library\<close>, which are not
  among the sources. The code modelled here only reads it: \<open>Program.library[t]\<close>
  (a float for a fixed constant, a string for the constant placeholder, an int for an
  input variable, an object with a \<open>name\<close> for a function), the attributes
  \<open>names\<close>, \<open>arities\<close>, \<open>const_token\<close>, \<open>L\<close>, and the token collections. Each read
  is a field of a record that every operation takes as a parameter; a lookup that
  raises is \<open>None\<close>.
\<close>

datatype lib_entry = EFloat real | EStr string | EInt int | EFunc string

record library =
  lib_item :: "int \<Rightarrow> lib_entry option"
  lib_names :: "string list"
  arities :: "int \<Rightarrow> int option"
  const_token :: int
  lib_L :: nat
  terminal_tokens :: "int list"
  unary_tokens :: "int list"
  binary_tokens :: "int list"
  trig_tokens :: "int list"
  inverse_tokens :: "int \<Rightarrow> int option"

section \<open>The prior matrix\<close>

text \<open>
  An entry of \<open>priors\<close> is \<open>0\<close> or \<open>-inf\<close>. An integer index \<open>i\<close> into an axis of size
  \<open>n\<close> is in range for numpy when \<open>-n \<le> i < n\<close>, a negative one counting from the end.
\<close>

datatype logit = Zero | NegInf

type_synonym prior_matrix = "logit list list"

definition np_index :: "nat \<Rightarrow> int \<Rightarrow> nat option" where
  "np_index n i =
     (if 0 \<le> i \<and> i < int n then Some (nat i)
      else if - int n \<le> i \<and> i < 0 then Some (nat (i + int n))
      else None)"

text \<open>\<open>priors[r, c] = -np.inf\<close> with two integers.\<close>

definition set_cell :: "prior_matrix \<Rightarrow> int \<Rightarrow> int \<Rightarrow> py_error + prior_matrix" where
  "set_cell P r c =
     (case np_index (length P) r of
        None \<Rightarrow> Inl IndexError
      | Some r' \<Rightarrow>
          (case np_index (length (P ! r')) c of
             None \<Rightarrow> Inl IndexError
           | Some c' \<Rightarrow> Inr (P[r' := (P ! r')[c' := NegInf]])))"

text \<open>
  \<open>priors[r, cs] = -np.inf\<close> with a collection of column indices. The row is checked
  also when the collection is empty, and every column of the collection is checked.
\<close>

fun set_cells_loop :: "prior_matrix \<Rightarrow> int \<Rightarrow> int list \<Rightarrow> py_error + prior_matrix" where
  "set_cells_loop P r [] = Inr P"
| "set_cells_loop P r (c # cs) =
     (case set_cell P r c of Inl e \<Rightarrow> Inl e | Inr P' \<Rightarrow> set_cells_loop P' r cs)"

definition set_cells :: "prior_matrix \<Rightarrow> int \<Rightarrow> int list \<Rightarrow> py_error + prior_matrix" where
  "set_cells P r cs =
     (case np_index (length P) r of
        None \<Rightarrow> Inl IndexError
      | Some r' \<Rightarrow> set_cells_loop P r cs)"

record prior_state =
  priors :: prior_matrix
  trig_descendant :: bool
  trig_dangling :: int
  dangling :: int

text \<open>The block \<open>if t in trig_tokens: ... elif trig_descendant: ...\<close> of \<open>generate_priors\<close>.\<close>

definition prior_trig :: "library \<Rightarrow> bool \<times> int \<Rightarrow> int \<Rightarrow> bool \<times> int" where
  "prior_trig lib st t =
     (case st of (desc, td) \<Rightarrow>
        if t \<in> set (trig_tokens lib) then (True, 1)
        else if desc then
          (let td' = (if t \<in> set (binary_tokens lib) then td + 1
                      else if t \<notin> set (unary_tokens lib) then td - 1
                      else td)
           in if td' = 0 then (False, td') else (True, td'))
        else (desc, td))"

text \<open>
  The late-length block: \<open>if (i + 2) >= max_len // 2: ...\<close>. The collection whose
  columns are masked at row \<open>i + 1\<close>, if any.
\<close>

definition late_mask :: "library \<Rightarrow> int \<Rightarrow> int \<Rightarrow> int \<Rightarrow> int list option" where
  "late_mask lib max_len i dang =
     (if (i + 2) \<ge> max_len div 2 then
        (let remaining = max_len - (i + 1) in
         if dang \<ge> remaining - 1 then Some (binary_tokens lib)
         else if dang = remaining then Some (unary_tokens lib)
         else None)
      else None)"

definition bind_err :: "py_error + 'a \<Rightarrow> ('a \<Rightarrow> py_error + 'b) \<Rightarrow> py_error + 'b" where
  "bind_err m f = (case m of Inl e \<Rightarrow> Inl e | Inr x \<Rightarrow> f x)"

text \<open>
  One iteration of \<open>for i, t in enumerate(tokens)\<close>; \<open>n\<close> is \<open>len(tokens)\<close> and
  \<open>offset\<close> is the constant \<open>1\<close>.
\<close>

definition prior_step ::
  "library \<Rightarrow> int \<Rightarrow> int \<Rightarrow> int \<Rightarrow> prior_state \<Rightarrow> nat \<times> int \<Rightarrow> py_error + prior_state" where
  "prior_step lib n max_len min_len st it =
     (case it of (i, t) \<Rightarrow>
      (case arities lib t of
         None \<Rightarrow> Inl IndexError
       | Some a \<Rightarrow>
          (let dang = dangling st + (a - 1) in
           if int i < n - 1 then
             (let (desc, td) = prior_trig lib (trig_descendant st, trig_dangling st) t in
              bind_err (if desc then set_cells (priors st) (int i + 1) (trig_tokens lib)
                        else Inr (priors st)) (\<lambda>P1.
              bind_err (case inverse_tokens lib t of
                          Some u \<Rightarrow> set_cell P1 (int i + 1) u
                        | None \<Rightarrow> Inr P1) (\<lambda>P2.
              bind_err (if int i + 2 < min_len \<and> dang = 1
                        then set_cells P2 (int i + 1) (terminal_tokens lib)
                        else Inr P2) (\<lambda>P3.
              bind_err (case late_mask lib max_len (int i) dang of
                          Some cs \<Rightarrow> set_cells P3 (int i + 1) cs
                        | None \<Rightarrow> Inr P3) (\<lambda>P4.
              Inr \<lparr>priors = P4, trig_descendant = desc, trig_dangling = td,
                   dangling = dang\<rparr>)))))
           else Inr (st\<lparr>dangling := dang\<rparr>))))"

fun prior_loop ::
  "library \<Rightarrow> int \<Rightarrow> int \<Rightarrow> int \<Rightarrow> prior_state \<Rightarrow> (nat \<times> int) list \<Rightarrow> py_error + prior_state" where
  "prior_loop lib n max_len min_len st [] = Inr st"
| "prior_loop lib n max_len min_len st (it # its) =
     bind_err (prior_step lib n max_len min_len st it) (\<lambda>st'.
       prior_loop lib n max_len min_len st' its)"

text \<open>
  \<open>generate_priors(tokens, max_exp_length, expr_length, max_const, max_len, min_len)\<close>.
  \<open>expr_length\<close> and \<open>max_const\<close> are not read by the body.
\<close>

definition generate_priors ::
  "library \<Rightarrow> int list \<Rightarrow> nat \<Rightarrow> nat \<Rightarrow> int \<Rightarrow> int \<Rightarrow> int \<Rightarrow> py_error + prior_matrix" where
  "generate_priors lib tokens max_exp_length expr_length max_const max_len min_len =
     bind_err (set_cells (replicate max_exp_length (replicate (lib_L lib) Zero)) 0
                 (terminal_tokens lib)) (\<lambda>P0.
     bind_err (prior_loop lib (int (length tokens)) max_len min_len
                 \<lparr>priors = P0, trig_descendant = False, trig_dangling = 0, dangling = 1\<rparr>
                 (enumerate 0 tokens)) (\<lambda>st.
     Inr (priors st)))"

text \<open>
  The library of the specification's scenario, with \<open>neg\<close> added: tokens
  \<open>0 x1, 1 const, 2 add, 3 sin, 4 log, 5 exp, 6 neg\<close>.
\<close>

definition scenario_library :: library where
  "scenario_library =
     \<lparr>lib_item = map_of [(0, EInt 0), (1, EStr ''const''), (2, EFunc ''add''),
         (3, EFunc ''sin''), (4, EFunc ''log''), (5, EFunc ''exp''), (6, EFunc ''neg'')],
      lib_names = [''x1'', ''const'', ''add'', ''sin'', ''log'', ''exp'', ''neg''],
      arities = map_of [(0, 0), (1, 0), (2, 2), (3, 1), (4, 1), (5, 1), (6, 1)],
      const_token = 1,
      lib_L = 7,
      terminal_tokens = [0, 1],
      unary_tokens = [3, 4, 5, 6],
      binary_tokens = [2],
      trig_tokens = [3],
      inverse_tokens = map_of [(4, 5), (5, 4), (6, 6)]\<rparr>"

subsection \<open>Reading the prior matrix\<close>

text \<open>
  \<open>neg_at P r c\<close>: the matrix has the entry \<open>(r, c)\<close> and it is \<open>-inf\<close>.
  \<open>shape P m l\<close>: \<open>P\<close> has \<open>m\<close> rows of \<open>l\<close> columns.
\<close>

definition neg_at :: "prior_matrix \<Rightarrow> nat \<Rightarrow> nat \<Rightarrow> bool" where
  "neg_at P r c \<longleftrightarrow> r < length P \<and> c < length (P ! r) \<and> P ! r ! c = NegInf"




subsection \<open>The library against the name tables\<close>

text \<open>
  The validator works on names, the prior on token indices. \<open>token_name\<close> is
  \<open>Program.library.names[t]\<close>. The library agrees with the name tables on a sequence
  when its trig, binary and unary collections hold exactly the tokens whose names are
  in \<open>TRIG_TOKENS\<close>, \<open>BINARY_TOKENS\<close> and \<open>UNARY_TOKENS\<close>, and its inverse map
  registers every inverse pair of \<open>INVERSE_TOKENS\<close> that occurs in the sequence.
\<close>

definition token_name :: "library \<Rightarrow> int \<Rightarrow> string" where
  "token_name lib t = lib_names lib ! nat t"

definition library_agrees :: "library \<Rightarrow> name_sets \<Rightarrow> int list \<Rightarrow> bool" where
  "library_agrees lib S tokens \<longleftrightarrow>
     (\<forall>t \<in> set tokens. 0 \<le> t \<and> nat t < length (lib_names lib) \<and>
        (t \<in> set (trig_tokens lib) \<longleftrightarrow> token_name lib t \<in> set TRIG_TOKENS) \<and>
        (t \<in> set (binary_tokens lib) \<longleftrightarrow> token_name lib t \<in> BINARY_TOKENS S) \<and>
        (t \<in> set (unary_tokens lib) \<longleftrightarrow> token_name lib t \<in> UNARY_TOKENS S) \<and>
        (\<forall>u \<in> set tokens. inverse_of (token_name lib t) = Some (token_name lib u) \<longrightarrow>
           inverse_tokens lib t = Some u))"

text \<open>A sequence is permitted end to end when no position holds a masked token.\<close>

definition permitted :: "prior_matrix \<Rightarrow> int list \<Rightarrow> bool" where
  "permitted P tokens \<longleftrightarrow> (\<forall>i < length tokens. P ! i ! nat (tokens ! i) \<noteq> NegInf)"

section \<open>Python helpers of the codec\<close>

text \<open>
  \<open>int(s)\<close> on a string: an optional sign and at least one decimal digit, else
  \<open>ValueError\<close>. (Python also accepts surrounding blanks and underscores between
  digits; the names DEAP gives to arguments, \<open>ARG0\<close>, \<open>ARG1\<close>, ..., have neither.)
\<close>

definition digit_value :: "char \<Rightarrow> int option" where
  "digit_value c =
     map_of [(CHR ''0'', 0), (CHR ''1'', 1), (CHR ''2'', 2), (CHR ''3'', 3), (CHR ''4'', 4),
             (CHR ''5'', 5), (CHR ''6'', 6), (CHR ''7'', 7), (CHR ''8'', 8), (CHR ''9'', 9)] c"

fun digits_value :: "int \<Rightarrow> string \<Rightarrow> int option" where
  "digits_value acc [] = Some acc"
| "digits_value acc (c # cs) =
     (case digit_value c of None \<Rightarrow> None | Some d \<Rightarrow> digits_value (10 * acc + d) cs)"

definition unsigned_of_str :: "string \<Rightarrow> py_error + int" where
  "unsigned_of_str s =
     (if s = [] then Inl ValueError
      else (case digits_value 0 s of None \<Rightarrow> Inl ValueError | Some v \<Rightarrow> Inr v))"

definition int_of_str :: "string \<Rightarrow> py_error + int" where
  "int_of_str s =
     (case s of
        [] \<Rightarrow> Inl ValueError
      | c # cs \<Rightarrow>
          if c = CHR ''-'' then bind_err (unsigned_of_str cs) (\<lambda>v. Inr (- v))
          else if c = CHR ''+'' then unsigned_of_str cs
          else unsigned_of_str s)"





text \<open>
  \<open>tokens\<close> is an \<open>int32\<close> array. An assignment \<open>tokens[i] = v\<close> converts \<open>v\<close> to a
  Python int (a float is truncated towards zero, a string is parsed as \<open>int\<close> does),
  then to a C \<open>long\<close>, which raises \<open>OverflowError\<close> beyond 64 bits, and keeps the low 32
  bits as a signed number. (This is numpy before version 1.24, the numpy that still
  has the \<open>np.float\<close> this module uses.)
\<close>

definition int32_store :: "int \<Rightarrow> py_error + int" where
  "int32_store v =
     (if - (2 ^ 63) \<le> v \<and> v < 2 ^ 63
      then Inr ((v + 2 ^ 31) mod 2 ^ 32 - 2 ^ 31)
      else Inl OverflowError)"

definition int_of_value :: "tvalue \<Rightarrow> py_error + int" where
  "int_of_value v =
     (case v of
        VNum x \<Rightarrow> Inr (if x \<ge> 0 then \<lfloor>x\<rfloor> else \<lceil>x\<rceil>)
      | VStr s \<Rightarrow> int_of_str s)"

text \<open>\<open>xs.index(x)\<close>: the first position of \<open>x\<close>, \<open>ValueError\<close> when there is none.\<close>

fun list_index :: "'a list \<Rightarrow> 'a \<Rightarrow> py_error + nat" where
  "list_index [] x = Inl ValueError"
| "list_index (y # ys) x =
     (if y = x then Inr 0 else bind_err (list_index ys x) (\<lambda>i. Inr (Suc i)))"

fun map_err :: "('a \<Rightarrow> py_error + 'b) \<Rightarrow> 'a list \<Rightarrow> py_error + 'b list" where
  "map_err f [] = Inr []"
| "map_err f (x # xs) = bind_err (f x) (\<lambda>y. bind_err (map_err f xs) (\<lambda>ys. Inr (y # ys)))"

text \<open>\<open>np.cumsum\<close>, and \<open>np.argmax\<close> of a boolean array: the first \<open>True\<close>, position 0
  when there is none, \<open>ValueError\<close> on an empty array.\<close>

fun cumsum :: "int \<Rightarrow> int list \<Rightarrow> int list" where
  "cumsum acc [] = []"
| "cumsum acc (x # xs) = (acc + x) # cumsum (acc + x) xs"

fun first_true :: "bool list \<Rightarrow> nat option" where
  "first_true [] = None"
| "first_true (b # bs) = (if b then Some 0 else map_option Suc (first_true bs))"

definition np_argmax :: "bool list \<Rightarrow> py_error + nat" where
  "np_argmax bs =
     (if bs = [] then Inl ValueError
      else Inr (case first_true bs of Some i \<Rightarrow> i | None \<Rightarrow> 0))"

section \<open>The codec: \<open>DEAP_to_tokens\<close>\<close>

text \<open>
  The body of the loop over \<open>range(l)\<close>: the value assigned for one node. The test
  \<open>t.name is "user_const"\<close> holds when the name is the interned object and has these
  characters; a terminal named \<open>mutable_const\<close> by another string object falls through
  to \<open>int(t.name[3:])\<close>.
\<close>

definition assigned_value :: "library \<Rightarrow> node \<Rightarrow> py_error + int" where
  "assigned_value lib t =
     (case t of
        Terminal nm v interned \<Rightarrow>
          if interned \<and> nm = ''user_const'' then int_of_value v
          else if interned \<and> nm = ''mutable_const'' then Inr (const_token lib)
          else int_of_str (drop 3 nm)
      | Primitive nm a \<Rightarrow> bind_err (list_index (lib_names lib) nm) (\<lambda>i. Inr (int i)))"

text \<open>\<open>tokens[i] = ...\<close>: the value assigned, as the \<open>int32\<close> array keeps it.\<close>

definition token_of_node :: "library \<Rightarrow> node \<Rightarrow> py_error + int" where
  "token_of_node lib t = bind_err (assigned_value lib t) int32_store"

text \<open>\<open>[Program.library.arities[t] for t in tokens]\<close>\<close>

definition arities_of :: "library \<Rightarrow> int list \<Rightarrow> py_error + int list" where
  "arities_of lib tokens =
     map_err (\<lambda>t. case arities lib t of None \<Rightarrow> Inl IndexError | Some a \<Rightarrow> Inr a) tokens"

text \<open>\<open>1 + np.cumsum(arities - 1)\<close>\<close>

definition dangling_of :: "int list \<Rightarrow> int list" where
  "dangling_of ars = map (\<lambda>c. 1 + c) (cumsum 0 (map (\<lambda>a. a - 1) ars))"

definition DEAP_to_tokens :: "library \<Rightarrow> individual \<Rightarrow> nat \<Rightarrow> py_error + (int list \<times> nat)" where
  "DEAP_to_tokens lib individual tokens_size =
     (let l = min (length individual) tokens_size in
      bind_err (map_err (token_of_node lib) (take l individual)) (\<lambda>ts.
      let tokens = ts @ replicate (tokens_size - l) 0 in
      bind_err (arities_of lib tokens) (\<lambda>ars.
      let dangling = dangling_of ars in
      bind_err (np_argmax (map (\<lambda>d. d = 0) dangling)) (\<lambda>k.
      Inr (tokens, 1 + k)))))"

subsection \<open>What the expression length is specified to be\<close>

text \<open>
  The running balance after the first \<open>k\<close> tokens is \<open>1 + \<Sum> (arity - 1)\<close> over them; \<open>p\<close>
  is the 1-indexed position at which it first reaches zero.
\<close>

definition running_balance :: "int list \<Rightarrow> nat \<Rightarrow> int" where
  "running_balance ars k = 1 + sum_list (map (\<lambda>a. a - 1) (take k ars))"

definition first_zero_at :: "int list \<Rightarrow> nat \<Rightarrow> bool" where
  "first_zero_at ars p \<longleftrightarrow>
     1 \<le> p \<and> p \<le> length ars \<and> running_balance ars p = 0 \<and>
     (\<forall>q < p. 1 \<le> q \<longrightarrow> running_balance ars q \<noteq> 0)"

text \<open>The scenario individual \<open>add(x1, x1)\<close>.\<close>

definition scenario_sum :: individual where
  "scenario_sum =
     [Primitive ''add'' 2, Terminal ''ARG0'' (VStr ''x1'') False, Terminal ''ARG0'' (VStr ''x1'') False]"

section \<open>The codec: \<open>tokens_to_DEAP\<close>\<close>









subsection \<open>Well-formed trees\<close>




text \<open>What the round trip does to a node: a constant placeholder comes back holding 1.0.\<close>

definition reset_const :: "node \<Rightarrow> node" where
  "reset_const t =
     (case t of
        Terminal nm v interned \<Rightarrow>
          if interned \<and> nm = ''mutable_const'' then Terminal nm (VNum 1) interned else t
      | Primitive nm a \<Rightarrow> t)"



subsection \<open>The store during \<open>tokens_to_DEAP\<close>\<close>



section \<open>The objective of the constant optimisation\<close>

text \<open>
  \<open>_set_const_individuals(self, const_idxs, consts, individual)\<close>: every pair of
  \<open>zip(const_idxs, consts)\<close> replaces the node at the index by a fresh terminal that
  holds the constant and is named \<open>mutable_const\<close>. The indices come from
  \<open>enumerate\<close> and are not negative; one beyond the individual raises \<open>IndexError\<close>,
  and DEAP's tree refuses, with \<open>ValueError\<close>, to replace a node by one of another
  arity: a terminal has arity 0.
\<close>

definition node_arity :: "node \<Rightarrow> nat" where
  "node_arity t = (case t of Primitive nm a \<Rightarrow> a | Terminal nm v interned \<Rightarrow> 0)"

fun set_const_individuals :: "(nat \<times> real) list \<Rightarrow> individual \<Rightarrow> py_error + individual" where
  "set_const_individuals [] individual = Inr individual"
| "set_const_individuals ((i, const) # rest) individual =
     (if \<not> i < length individual then Inl IndexError
      else if node_arity (individual ! i) \<noteq> 0 then Inl ValueError
      else set_const_individuals rest
             (individual[i := Terminal ''mutable_const'' (VNum const) True]))"

text \<open>
  The values that occur as arguments of the method, and a call of the method through
  \<open>self\<close>: the bound method passes \<open>self\<close> itself, so the call must give exactly the
  three other arguments; any other number of arguments raises \<open>TypeError\<close>.
\<close>

datatype py_arg = ASelf | AIdxs "nat list" | AConsts "real list" | AInd individual

definition call_set_const_individuals :: "py_arg list \<Rightarrow> py_error + individual" where
  "call_set_const_individuals args =
     (case args of
        [AIdxs const_idxs, AConsts consts, AInd individual] \<Rightarrow>
          set_const_individuals (zip const_idxs consts) individual
      | _ \<Rightarrow> Inl TypeError)"

text \<open>
  A result of the numeric evaluation is a finite float or not (\<open>nan\<close>, \<open>inf\<close>);
  \<open>np.finfo(np.float).max\<close> is the largest finite double.
\<close>

datatype np_float = Finite real | NotFinite

definition float_max :: real where
  "float_max = (2 - 1 / 2 ^ 52) * 2 ^ 1023"

text \<open>
  What \<open>obj\<close> reads from the enclosing call: \<open>const_idxs\<close>, and the evaluation
  \<open>np.mean((y - f(*X_train))**2)\<close> of a compiled individual on the training data, which
  raises or returns a float.
\<close>

record objective_env =
  const_idxs :: "nat list"
  training_error :: "individual \<Rightarrow> py_error + np_float"

text \<open>
  The local variables of a call of \<open>obj(consts)\<close>. \<open>obj\<close> assigns to \<open>individual\<close>, so
  in its body \<open>individual\<close> is a local variable of \<open>obj\<close>, not the parameter of the
  enclosing \<open>__call__\<close>; at entry only the parameter \<open>consts\<close> is bound, and reading an
  unbound local raises \<open>UnboundLocalError\<close>.
\<close>

definition obj_frame :: "real list \<Rightarrow> string \<Rightarrow> py_arg option" where
  "obj_frame consts = [''consts'' \<mapsto> AConsts consts]"

definition load_local :: "(string \<Rightarrow> py_arg option) \<Rightarrow> string \<Rightarrow> py_error + py_arg" where
  "load_local frame x = (case frame x of None \<Rightarrow> Inl UnboundLocalError | Some v \<Rightarrow> Inr v)"

text \<open>
  \<open>obj(consts)\<close>. The first statement evaluates the arguments \<open>self\<close>, \<open>const_idxs\<close>,
  \<open>consts\<close>, \<open>individual\<close> from left to right and then calls the bound method with
  them. The evaluation of the individual is the only part inside \<open>try\<close>.
\<close>

definition obj :: "objective_env \<Rightarrow> real list \<Rightarrow> py_error + real" where
  "obj env consts =
     (let frame = obj_frame consts in
      bind_err (load_local frame ''consts'') (\<lambda>a_consts.
      bind_err (load_local frame ''individual'') (\<lambda>a_individual.
      bind_err (call_set_const_individuals
                  [ASelf, AIdxs (const_idxs env), a_consts, a_individual]) (\<lambda>individual.
      case training_error env individual of
        Inl e \<Rightarrow> Inr float_max
      | Inr res \<Rightarrow>
          (case res of Finite x \<Rightarrow> Inr x | NotFinite \<Rightarrow> Inr float_max)))))"

section \<open>The prior against the validator\<close>






text \<open>
  The \<open>height\<close> of a DEAP tree: the depth of its deepest node, computed from the
  pre-order list with a stack of the depths of the open slots. (On a list that is not
  one tree DEAP pops from an empty stack and raises; the loop here stops.)
\<close>

fun height_loop :: "nat list \<Rightarrow> nat \<Rightarrow> individual \<Rightarrow> nat" where
  "height_loop stack deepest [] = deepest"
| "height_loop [] deepest (elem # rest) = deepest"
| "height_loop (depth # stack) deepest (elem # rest) =
     height_loop (replicate (node_arity elem) (depth + 1) @ stack) (max deepest depth) rest"

definition deap_height :: "individual \<Rightarrow> int" where
  "deap_height ind = int (height_loop [0] 0 ind)"


section \<open>The inverse table\<close>

lemma INVERSE_TOKENS_unfold:
  "INVERSE_TOKENS =
     [(''exp'', ''log''), (''neg'', ''neg''), (''inv'', ''inv''), (''sqrt'', ''n2''),
      (''sin'', ''arcsin''), (''cos'', ''arccos''), (''tan'', ''arctan''),
      (''csc'', ''arccsc''), (''sec'', ''arcsec''), (''cot'', ''arccot''),
      (''log'', ''exp''), (''n2'', ''sqrt''),
      (''arcsin'', ''sin''), (''arccos'', ''cos''), (''arctan'', ''tan''),
      (''arccsc'', ''csc''), (''arcsec'', ''sec''), (''arccot'', ''cot'')]"
  by (simp add: INVERSE_TOKENS_def INVERSE_TOKENS_trig_def INVERSE_TOKENS_base_def
      TRIG_TOKENS_def dict_update_def dict_comp_def)

lemma INVERSE_TOKENS_pairs:
  "\<forall>(t, u) \<in> set INVERSE_TOKENS. map_of INVERSE_TOKENS u = Some t"
  unfolding INVERSE_TOKENS_unfold by simp

text \<open>
  C9. The inverse table is symmetric: whenever \<open>t\<close> has the registered inverse \<open>u\<close>,
  \<open>u\<close> has the registered inverse \<open>t\<close>.
\<close>

theorem INVERSE_TOKENS_symmetric:
  "inverse_of t = Some u \<Longrightarrow> inverse_of u = Some t"
proof -
  assume "inverse_of t = Some u"
  then have "(t, u) \<in> set INVERSE_TOKENS"
    by (simp add: inverse_of_def map_of_SomeD)
  with INVERSE_TOKENS_pairs show ?thesis
    unfolding inverse_of_def by blast
qed

theorem INVERSE_TOKENS_symmetric_witness:
  "inverse_of ''sqrt'' = Some ''n2'' \<and> inverse_of ''n2'' = Some ''sqrt''"
proof -
  have h: "inverse_of ''sqrt'' = Some ''n2''"
    by (simp add: inverse_of_def INVERSE_TOKENS_unfold)
  from h INVERSE_TOKENS_symmetric [OF h] show ?thesis by simp
qed

section \<open>The inverse-adjacency check\<close>

lemma check_inv_loop_enumerate:
  "check_inv_loop names (enumerate k xs) \<longleftrightarrow>
     (\<exists>j < length xs. inverse_of (xs ! j) = Some (names ! (k + j + 1)))"
proof (induction xs arbitrary: k)
  case Nil
  then show ?case by simp
next
  case (Cons x xs)
  show ?case
    by (simp add: Cons.IH) (auto simp: less_Suc_eq_0_disj)
qed

lemma check_inv_adjacent:
  "check_inv names \<longleftrightarrow>
     (\<exists>i. Suc i < length names \<and> inverse_of (names ! i) = Some (names ! Suc i))"
  unfolding check_inv_def check_inv_loop_enumerate
  by (auto simp: nth_butlast less_diff_conv)

text \<open>
  C7. \<open>check_inv\<close> rejects exactly the sequences in which some position \<open>i\<close> holds a
  token with a registered inverse and position \<open>i + 1\<close> holds that inverse.
\<close>

theorem check_inv_iff:
  "check_inv names \<longleftrightarrow>
     (\<exists>i. Suc i < length names \<and> inverse_of (names ! i) = Some (names ! Suc i))"
  by (rule check_inv_adjacent)

theorem check_inv_iff_witness:
  "check_inv [''add'', ''exp'', ''log'', ''x1''] \<and>
   \<not> (\<exists>i. Suc i < length [''add'', ''sin'', ''x1'', ''log'', ''x1''] \<and>
        inverse_of ([''add'', ''sin'', ''x1'', ''log'', ''x1''] ! i) =
        Some ([''add'', ''sin'', ''x1'', ''log'', ''x1''] ! Suc i))"
proof -
  have a: "inverse_of ([''add'', ''exp'', ''log'', ''x1''] ! 1) =
        Some ([''add'', ''exp'', ''log'', ''x1''] ! Suc 1)"
    by (simp add: inverse_of_def INVERSE_TOKENS_unfold)
  have b: "\<not> check_inv [''add'', ''sin'', ''x1'', ''log'', ''x1'']"
    by (simp add: check_inv_def inverse_of_def INVERSE_TOKENS_unfold)
  have "check_inv [''add'', ''exp'', ''log'', ''x1'']"
    unfolding check_inv_iff [of "[''add'', ''exp'', ''log'', ''x1'']"]
    using a by (intro exI [of _ 1]) simp
  moreover note b [unfolded check_inv_iff]
  ultimately show ?thesis by blast
qed

section \<open>The nested-trig check\<close>

lemma ex_less_Suc_conv: "(\<exists>j < Suc n. P j) \<longleftrightarrow> P 0 \<or> (\<exists>j < n. P (Suc j))"
  by (metis less_Suc_eq_0_disj Suc_less_eq zero_less_Suc)

lemma all_less_Suc_conv: "(\<forall>j < Suc n. P j) \<longleftrightarrow> P 0 \<and> (\<forall>j < n. P (Suc j))"
  by (metis less_Suc_eq_0_disj Suc_less_eq zero_less_Suc)

lemma open_from_Cons:
  "open_from S d (x # xs) \<longleftrightarrow>
     x \<in> set TRIG_TOKENS \<or> (d + delta S x \<noteq> 0 \<and> open_from S (d + delta S x) xs)"
  unfolding open_from_def
  by (simp add: ex_less_Suc_conv all_less_Suc_conv add.assoc) blast

lemma nested_trig_Cons:
  "nested_trig S (x # xs) \<longleftrightarrow> (x \<in> set TRIG_TOKENS \<and> open_from S 1 xs) \<or> nested_trig S xs"
  unfolding nested_trig_def open_from_def local_balance_def
  by (simp add: ex_less_Suc_conv all_less_Suc_conv) blast

lemma check_trig_loop_iff:
  "check_trig_loop S (desc, d) xs \<longleftrightarrow> (desc \<and> open_from S d xs) \<or> nested_trig S xs"
proof (induction xs arbitrary: desc d)
  case Nil
  then show ?case by (simp add: open_from_def nested_trig_def)
next
  case (Cons x xs)
  show ?case
    by (auto simp: check_trig_step_def Cons.IH nested_trig_Cons open_from_Cons delta_def Let_def)
qed

lemma check_trig_nested: "check_trig S names \<longleftrightarrow> nested_trig S names"
  by (simp add: check_trig_def check_trig_loop_iff)

text \<open>
  C6. \<open>check_trig\<close> rejects exactly the sequences in which a trig token occurs while
  the subtree of an earlier trig token is still open; \<open>[sin, sin, x1]\<close> is rejected
  whatever the unary and binary name sets are.
\<close>

theorem check_trig_iff:
  "(check_trig S names \<longleftrightarrow> nested_trig S names) \<and> check_trig S [''sin'', ''sin'', ''x1'']"
  by (simp add: check_trig_def check_trig_loop_iff check_trig_step_def TRIG_TOKENS_def)

theorem check_trig_iff_witness:
  "nested_trig scenario_sets [''sin'', ''sin'', ''x1''] \<and>
   \<not> nested_trig scenario_sets [''add'', ''sin'', ''x1'', ''sin'', ''x1'']"
proof -
  have "\<not> check_trig scenario_sets [''add'', ''sin'', ''x1'', ''sin'', ''x1'']"
    by (simp add: check_trig_def check_trig_step_def TRIG_TOKENS_def scenario_sets_def)
  with check_trig_iff [of scenario_sets "[''add'', ''sin'', ''x1'', ''sin'', ''x1'']"]
    check_trig_iff [of scenario_sets "[''sin'', ''sin'', ''x1'']"]
  show ?thesis by blast
qed

section \<open>The constraint decorator\<close>

lemma rejects_iff: "rejects c height S ind \<longleftrightarrow> \<not> satisfies_all c height S ind"
  by (auto simp: rejects_def satisfies_all_def Let_def inverse_adjacent_def
      check_inv_adjacent check_trig_nested)

lemma constraint_loop_sound:
  "constraint_loop c height S draws keep pos inds = Inr out \<Longrightarrow>
   length out = length inds \<and> (\<forall>x \<in> set out. satisfies_all c height S x \<or> x \<in> set keep)"
proof (induction inds arbitrary: pos out)
  case Nil
  then show ?case by simp
next
  case (Cons ind rest)
  show ?case
  proof (cases "rejects c height S ind")
    case True
    with Cons.prems obtain kept pos' out' where
      ch: "random_choice draws pos keep = Inr (kept, pos')" and
      rec: "constraint_loop c height S draws keep pos' rest = Inr out'" and
      out: "out = kept # out'"
      by (auto split: sum.splits)
    from ch have "kept \<in> set keep"
      by (auto simp: random_choice_def split: if_splits)
    with Cons.IH [OF rec] out show ?thesis by simp
  next
    case False
    with Cons.prems obtain out' where
      rec: "constraint_loop c height S draws keep pos rest = Inr out'" and
      out: "out = ind # out'"
      by (auto split: sum.splits)
    from False have "satisfies_all c height S ind" by (simp add: rejects_iff)
    with Cons.IH [OF rec] out show ?thesis by simp
  qed
qed

lemma constraint_loop_total:
  "keep \<noteq> [] \<Longrightarrow> \<exists>out. constraint_loop c height S draws keep pos inds = Inr out"
proof (induction inds arbitrary: pos)
  case Nil
  then show ?case by simp
next
  case (Cons ind rest)
  from Cons.IH [OF Cons.prems, of pos] obtain o1 where
    a: "constraint_loop c height S draws keep pos rest = Inr o1" by blast
  from Cons.IH [OF Cons.prems, of "pos + 1"] obtain o2 where
    b: "constraint_loop c height S draws keep (pos + 1) rest = Inr o2" by blast
  from a b Cons.prems show ?case
    by (simp add: random_choice_def)
qed

text \<open>
  C8. Every individual returned by a wrapped operator satisfies the five structural
  constraints or is one of the copies of the arguments taken before the operator ran;
  with at least one argument the wrapper returns.
\<close>

theorem checkConstraint_invariant:
  "(args \<noteq> [] \<longrightarrow> (\<exists>out. checkConstraint c height S draws func pos args = Inr out)) \<and>
   (\<forall>out. checkConstraint c height S draws func pos args = Inr out \<longrightarrow>
      length out = length (fst (func pos args)) \<and>
      (\<forall>x \<in> set out. satisfies_all c height S x \<or> x \<in> set args))"
  unfolding checkConstraint_def Let_def
  by (auto simp: split_beta dest: constraint_loop_sound intro: constraint_loop_total)

theorem checkConstraint_invariant_witness:
  "[scenario_parent] \<noteq> [] \<and>
   checkConstraint scenario_constraints deap_height scenario_sets (\<lambda>n. 0) scenario_mate 0
     [scenario_parent] = Inr [scenario_parent, scenario_child] \<and>
   satisfies_all scenario_constraints deap_height scenario_sets scenario_child"
proof -
  have d: "scenario_child \<notin> set [scenario_parent]"
    by (simp add: scenario_child_def scenario_parent_def)
  have e: "checkConstraint scenario_constraints deap_height scenario_sets (\<lambda>n. 0) scenario_mate 0
     [scenario_parent] = Inr [scenario_parent, scenario_child]"
    by (simp add: checkConstraint_def scenario_mate_def scenario_child_def scenario_parent_def
        scenario_constraints_def scenario_sets_def rejects_def random_choice_def
        check_inv_def check_trig_def check_trig_step_def TRIG_TOKENS_def
        inverse_of_def INVERSE_TOKENS_unfold deap_height_def node_arity_def
        numeral_2_eq_2)
  from checkConstraint_invariant [of "[scenario_parent]" scenario_constraints deap_height
      scenario_sets "\<lambda>n. 0" scenario_mate 0] e d
  show ?thesis by fastforce
qed

section \<open>The prior matrix\<close>

lemma np_index_nonneg: "0 \<le> i \<Longrightarrow> np_index n i = Some k \<longleftrightarrow> (k = nat i \<and> nat i < n)"
  by (auto simp: np_index_def)

lemma np_index_less: "np_index n i = Some k \<Longrightarrow> k < n"
  by (auto simp: np_index_def split: if_splits)

lemma set_cell_cases:
  assumes "set_cell P r c = Inr P'"
  obtains r' c' where "np_index (length P) r = Some r'" "np_index (length (P ! r')) c = Some c'"
    "r' < length P" "c' < length (P ! r')" "P' = P[r' := (P ! r')[c' := NegInf]]"
  using assms by (auto simp: set_cell_def split: option.splits dest: np_index_less)


lemma set_cell_keeps: "set_cell P r c = Inr P' \<Longrightarrow> neg_at P a b \<Longrightarrow> neg_at P' a b"
  by (erule set_cell_cases) (auto simp: neg_at_def nth_list_update)

lemma set_cell_hits:
  "set_cell P r c = Inr P' \<Longrightarrow> 0 \<le> r \<Longrightarrow> 0 \<le> c \<Longrightarrow> neg_at P' (nat r) (nat c)"
  by (erule set_cell_cases) (auto simp: neg_at_def np_index_nonneg)



lemma set_cells_loop_keeps:
  "set_cells_loop P r cs = Inr P' \<Longrightarrow> neg_at P a b \<Longrightarrow> neg_at P' a b"
  by (induction cs arbitrary: P) (auto split: sum.splits dest: set_cell_keeps)

lemma set_cells_loop_hits:
  "set_cells_loop P r cs = Inr P' \<Longrightarrow> 0 \<le> r \<Longrightarrow> c \<in> set cs \<Longrightarrow> 0 \<le> c \<Longrightarrow>
   neg_at P' (nat r) (nat c)"
proof (induction cs arbitrary: P)
  case Nil
  then show ?case by simp
next
  case (Cons x cs)
  from Cons.prems(1) obtain P1 where
    a: "set_cell P r x = Inr P1" and b: "set_cells_loop P1 r cs = Inr P'"
    by (auto split: sum.splits)
  show ?case
  proof (cases "c = x")
    case True
    with a Cons.prems have "neg_at P1 (nat r) (nat c)" by (auto dest: set_cell_hits)
    with b show ?thesis by (rule set_cells_loop_keeps)
  next
    case False
    with Cons.prems have "c \<in> set cs" by simp
    with Cons.IH [OF b] Cons.prems show ?thesis by simp
  qed
qed


lemma set_cells_Inr:
  "set_cells P r cs = Inr P' \<longleftrightarrow>
     np_index (length P) r \<noteq> None \<and> set_cells_loop P r cs = Inr P'"
  by (auto simp: set_cells_def split: option.splits)


lemma set_cells_keeps: "set_cells P r cs = Inr P' \<Longrightarrow> neg_at P a b \<Longrightarrow> neg_at P' a b"
  by (auto simp: set_cells_Inr dest: set_cells_loop_keeps)

lemma set_cells_hits:
  "set_cells P r cs = Inr P' \<Longrightarrow> 0 \<le> r \<Longrightarrow> c \<in> set cs \<Longrightarrow> 0 \<le> c \<Longrightarrow>
   neg_at P' (nat r) (nat c)"
  by (auto simp: set_cells_Inr dest: set_cells_loop_hits)


lemma bind_err_Inr: "bind_err m f = Inr y \<longleftrightarrow> (\<exists>x. m = Inr x \<and> f x = Inr y)"
  by (cases m) (simp_all add: bind_err_def)

lemma prior_step_cases:
  assumes "prior_step lib n max_len min_len st (i, t) = Inr st'" and "int i < n - 1"
  obtains a P1 P2 P3 P4 where
    "arities lib t = Some a"
    "(if fst (prior_trig lib (trig_descendant st, trig_dangling st) t)
      then set_cells (priors st) (int i + 1) (trig_tokens lib) else Inr (priors st)) = Inr P1"
    "(case inverse_tokens lib t of Some u \<Rightarrow> set_cell P1 (int i + 1) u | None \<Rightarrow> Inr P1) = Inr P2"
    "(if int i + 2 < min_len \<and> dangling st + (a - 1) = 1
      then set_cells P2 (int i + 1) (terminal_tokens lib) else Inr P2) = Inr P3"
    "(case late_mask lib max_len (int i) (dangling st + (a - 1)) of
        Some cs \<Rightarrow> set_cells P3 (int i + 1) cs | None \<Rightarrow> Inr P3) = Inr P4"
    "st' = \<lparr>priors = P4,
            trig_descendant = fst (prior_trig lib (trig_descendant st, trig_dangling st) t),
            trig_dangling = snd (prior_trig lib (trig_descendant st, trig_dangling st) t),
            dangling = dangling st + (a - 1)\<rparr>"
proof -
  from assms obtain a where a: "arities lib t = Some a"
    by (auto simp: prior_step_def split: option.splits)
  obtain desc td where dt: "prior_trig lib (trig_descendant st, trig_dangling st) t = (desc, td)"
    by (cases "prior_trig lib (trig_descendant st, trig_dangling st) t")
  from assms a dt obtain P1 P2 P3 P4 where
    "(if desc then set_cells (priors st) (int i + 1) (trig_tokens lib) else Inr (priors st)) = Inr P1"
    "(case inverse_tokens lib t of Some u \<Rightarrow> set_cell P1 (int i + 1) u | None \<Rightarrow> Inr P1) = Inr P2"
    "(if int i + 2 < min_len \<and> dangling st + (a - 1) = 1
      then set_cells P2 (int i + 1) (terminal_tokens lib) else Inr P2) = Inr P3"
    "(case late_mask lib max_len (int i) (dangling st + (a - 1)) of
        Some cs \<Rightarrow> set_cells P3 (int i + 1) cs | None \<Rightarrow> Inr P3) = Inr P4"
    "st' = \<lparr>priors = P4, trig_descendant = desc, trig_dangling = td,
            dangling = dangling st + (a - 1)\<rparr>"
    unfolding prior_step_def by (simp add: Let_def bind_err_Inr) blast
  with a dt that show thesis by simp
qed

lemma prior_step_last:
  "prior_step lib n max_len min_len st (i, t) = Inr st' \<Longrightarrow> \<not> int i < n - 1 \<Longrightarrow>
   priors st' = priors st"
  by (auto simp: prior_step_def Let_def split: option.splits)

lemma prior_step_keeps:
  assumes "prior_step lib n max_len min_len st (i, t) = Inr st'" and "neg_at (priors st) r c"
  shows "neg_at (priors st') r c"
proof (cases "int i < n - 1")
  case True
  from assms(1) True show ?thesis
  proof (rule prior_step_cases)
    fix a P1 P2 P3 P4
    assume 1: "(if fst (prior_trig lib (trig_descendant st, trig_dangling st) t)
      then set_cells (priors st) (int i + 1) (trig_tokens lib) else Inr (priors st)) = Inr P1"
    and 2: "(case inverse_tokens lib t of Some u \<Rightarrow> set_cell P1 (int i + 1) u | None \<Rightarrow> Inr P1) = Inr P2"
    and 3: "(if int i + 2 < min_len \<and> dangling st + (a - 1) = 1
      then set_cells P2 (int i + 1) (terminal_tokens lib) else Inr P2) = Inr P3"
    and 4: "(case late_mask lib max_len (int i) (dangling st + (a - 1)) of
        Some cs \<Rightarrow> set_cells P3 (int i + 1) cs | None \<Rightarrow> Inr P3) = Inr P4"
    and 5: "st' = \<lparr>priors = P4,
            trig_descendant = fst (prior_trig lib (trig_descendant st, trig_dangling st) t),
            trig_dangling = snd (prior_trig lib (trig_descendant st, trig_dangling st) t),
            dangling = dangling st + (a - 1)\<rparr>"
    from 1 assms(2) have "neg_at P1 r c"
      by (auto split: if_splits dest: set_cells_keeps)
    with 2 have "neg_at P2 r c"
      by (auto split: option.splits dest: set_cell_keeps)
    with 3 have "neg_at P3 r c"
      by (auto split: if_splits dest: set_cells_keeps)
    with 4 have "neg_at P4 r c"
      by (auto split: option.splits dest: set_cells_keeps)
    with 5 show ?thesis by simp
  qed
next
  case False
  with assms show ?thesis by (simp add: prior_step_last)
qed

lemma prior_loop_keeps:
  "prior_loop lib n max_len min_len st its = Inr st' \<Longrightarrow> neg_at (priors st) r c \<Longrightarrow>
   neg_at (priors st') r c"
proof (induction its arbitrary: st)
  case Nil
  then show ?case by simp
next
  case (Cons it its)
  obtain i t where it: "it = (i, t)" by (cases it)
  from Cons.prems(1) obtain s1 where
    a: "prior_step lib n max_len min_len st (i, t) = Inr s1" and
    b: "prior_loop lib n max_len min_len s1 its = Inr st'"
    by (auto simp: bind_err_Inr it)
  from a Cons.prems(2) have "neg_at (priors s1) r c" by (rule prior_step_keeps)
  with b show ?case by (rule Cons.IH)
qed

lemma prior_step_hits_inverse:
  assumes "prior_step lib n max_len min_len st (i, t) = Inr st'" and "int i < n - 1"
    and "inverse_tokens lib t = Some u" and "0 \<le> u"
  shows "neg_at (priors st') (Suc i) (nat u)"
  using assms(1,2)
proof (rule prior_step_cases)
  fix a P1 P2 P3 P4
  assume 2: "(case inverse_tokens lib t of Some u \<Rightarrow> set_cell P1 (int i + 1) u | None \<Rightarrow> Inr P1) = Inr P2"
    and 3: "(if int i + 2 < min_len \<and> dangling st + (a - 1) = 1
      then set_cells P2 (int i + 1) (terminal_tokens lib) else Inr P2) = Inr P3"
    and 4: "(case late_mask lib max_len (int i) (dangling st + (a - 1)) of
        Some cs \<Rightarrow> set_cells P3 (int i + 1) cs | None \<Rightarrow> Inr P3) = Inr P4"
    and 5: "st' = \<lparr>priors = P4,
            trig_descendant = fst (prior_trig lib (trig_descendant st, trig_dangling st) t),
            trig_dangling = snd (prior_trig lib (trig_descendant st, trig_dangling st) t),
            dangling = dangling st + (a - 1)\<rparr>"
  from 2 assms(3,4) have "neg_at P2 (nat (int i + 1)) (nat u)"
    by (auto dest: set_cell_hits)
  then have "neg_at P2 (Suc i) (nat u)" by (simp add: nat_add_distrib)
  with 3 have "neg_at P3 (Suc i) (nat u)"
    by (auto split: if_splits dest: set_cells_keeps)
  with 4 have "neg_at P4 (Suc i) (nat u)"
    by (auto split: option.splits dest: set_cells_keeps)
  with 5 show ?thesis by simp
qed

lemma prior_step_hits_trig:
  assumes "prior_step lib n max_len min_len st (i, t) = Inr st'" and "int i < n - 1"
    and "fst (prior_trig lib (trig_descendant st, trig_dangling st) t)"
    and "c \<in> set (trig_tokens lib)" and "0 \<le> c"
  shows "neg_at (priors st') (Suc i) (nat c)"
  using assms(1,2)
proof (rule prior_step_cases)
  fix a P1 P2 P3 P4
  assume 1: "(if fst (prior_trig lib (trig_descendant st, trig_dangling st) t)
      then set_cells (priors st) (int i + 1) (trig_tokens lib) else Inr (priors st)) = Inr P1"
    and 2: "(case inverse_tokens lib t of Some u \<Rightarrow> set_cell P1 (int i + 1) u | None \<Rightarrow> Inr P1) = Inr P2"
    and 3: "(if int i + 2 < min_len \<and> dangling st + (a - 1) = 1
      then set_cells P2 (int i + 1) (terminal_tokens lib) else Inr P2) = Inr P3"
    and 4: "(case late_mask lib max_len (int i) (dangling st + (a - 1)) of
        Some cs \<Rightarrow> set_cells P3 (int i + 1) cs | None \<Rightarrow> Inr P3) = Inr P4"
    and 5: "st' = \<lparr>priors = P4,
            trig_descendant = fst (prior_trig lib (trig_descendant st, trig_dangling st) t),
            trig_dangling = snd (prior_trig lib (trig_descendant st, trig_dangling st) t),
            dangling = dangling st + (a - 1)\<rparr>"
  from 1 assms(3,4,5) have "neg_at P1 (nat (int i + 1)) (nat c)"
    by (auto dest: set_cells_hits)
  then have "neg_at P1 (Suc i) (nat c)" by (simp add: nat_add_distrib)
  with 2 have "neg_at P2 (Suc i) (nat c)"
    by (auto split: option.splits dest: set_cell_keeps)
  with 3 have "neg_at P3 (Suc i) (nat c)"
    by (auto split: if_splits dest: set_cells_keeps)
  with 4 have "neg_at P4 (Suc i) (nat c)"
    by (auto split: option.splits dest: set_cells_keeps)
  with 5 show ?thesis by simp
qed

lemma prior_step_hits_late:
  assumes "prior_step lib n max_len min_len st (i, t) = Inr st'" and "int i < n - 1"
    and "arities lib t = Some a"
    and "late_mask lib max_len (int i) (dangling st + (a - 1)) = Some cs"
    and "c \<in> set cs" and "0 \<le> c"
  shows "neg_at (priors st') (Suc i) (nat c)"
  using assms(1,2)
proof (rule prior_step_cases)
  fix a' P1 P2 P3 P4
  assume 0: "arities lib t = Some a'"
    and 4: "(case late_mask lib max_len (int i) (dangling st + (a' - 1)) of
        Some cs \<Rightarrow> set_cells P3 (int i + 1) cs | None \<Rightarrow> Inr P3) = Inr P4"
    and 5: "st' = \<lparr>priors = P4,
            trig_descendant = fst (prior_trig lib (trig_descendant st, trig_dangling st) t),
            trig_dangling = snd (prior_trig lib (trig_descendant st, trig_dangling st) t),
            dangling = dangling st + (a' - 1)\<rparr>"
  from 0 assms(3) have "a' = a" by simp
  with 4 assms(4,5,6) have "neg_at P4 (nat (int i + 1)) (nat c)"
    by (auto dest: set_cells_hits)
  then have "neg_at P4 (Suc i) (nat c)" by (simp add: nat_add_distrib)
  with 5 show ?thesis by simp
qed

lemma prior_step_state:
  assumes "prior_step lib n max_len min_len st (i, t) = Inr st'" and "int i < n - 1"
  shows "(trig_descendant st', trig_dangling st') =
           prior_trig lib (trig_descendant st, trig_dangling st) t \<and>
         (\<exists>a. arities lib t = Some a \<and> dangling st' = dangling st + (a - 1))"
  using assms by (rule prior_step_cases) simp

lemma prior_loop_append:
  "prior_loop lib n max_len min_len st (xs @ ys) =
     bind_err (prior_loop lib n max_len min_len st xs) (\<lambda>s. prior_loop lib n max_len min_len s ys)"
proof (induction xs arbitrary: st)
  case Nil
  then show ?case by (simp add: bind_err_def)
next
  case (Cons x xs)
  show ?case
    by (cases "prior_step lib n max_len min_len st x") (simp_all add: bind_err_def Cons.IH)
qed

lemma enumerate_split:
  "j < length ts \<Longrightarrow>
   enumerate k ts = enumerate k (take j ts) @ (k + j, ts ! j) # enumerate (Suc (k + j)) (drop (Suc j) ts)"
proof -
  assume j: "j < length ts"
  then have "ts = take j ts @ ts ! j # drop (Suc j) ts"
    by (simp add: id_take_nth_drop)
  then have "enumerate k ts = enumerate k (take j ts @ ts ! j # drop (Suc j) ts)" by simp
  also have "\<dots> = enumerate k (take j ts) @ (k + j, ts ! j) # enumerate (Suc (k + j)) (drop (Suc j) ts)"
    using j by (simp add: enumerate_append_eq min_def)
  finally show ?thesis .
qed

lemma prior_loop_split:
  assumes "prior_loop lib n max_len min_len st (enumerate k ts) = Inr st'" and "j < length ts"
  obtains sj sj' where
    "prior_loop lib n max_len min_len st (enumerate k (take j ts)) = Inr sj"
    "prior_step lib n max_len min_len sj (k + j, ts ! j) = Inr sj'"
    "prior_loop lib n max_len min_len sj' (enumerate (Suc (k + j)) (drop (Suc j) ts)) = Inr st'"
  using assms(1) unfolding enumerate_split [OF assms(2), of k] prior_loop_append
  by (auto simp: bind_err_Inr)

lemma prior_loop_state:
  "prior_loop lib n max_len min_len st (enumerate k ts) = Inr st' \<Longrightarrow>
   int (k + length ts) \<le> n - 1 \<Longrightarrow>
   (trig_descendant st', trig_dangling st') =
     fold (\<lambda>t s. prior_trig lib s t) ts (trig_descendant st, trig_dangling st)"
proof (induction ts arbitrary: st k)
  case Nil
  then show ?case by simp
next
  case (Cons t ts)
  from Cons.prems(1) obtain s1 where
    a: "prior_step lib n max_len min_len st (k, t) = Inr s1" and
    b: "prior_loop lib n max_len min_len s1 (enumerate (Suc k) ts) = Inr st'"
    by (auto simp: bind_err_Inr)
  from Cons.prems(2) have lt: "int k < n - 1" by simp
  from prior_step_state [OF a lt] have
    s: "(trig_descendant s1, trig_dangling s1) =
          prior_trig lib (trig_descendant st, trig_dangling st) t" by simp
  from Cons.prems(2) have "int (Suc k + length ts) \<le> n - 1" by simp
  from Cons.IH [OF b this] s show ?case by simp
qed







lemma generate_priors_cases:
  assumes "generate_priors lib tokens m el mc max_len min_len = Inr P"
  obtains P0 st where
    "set_cells (replicate m (replicate (lib_L lib) Zero)) 0 (terminal_tokens lib) = Inr P0"
    "prior_loop lib (int (length tokens)) max_len min_len
       \<lparr>priors = P0, trig_descendant = False, trig_dangling = 0, dangling = 1\<rparr>
       (enumerate 0 tokens) = Inr st"
    "P = priors st"
  using assms by (auto simp: generate_priors_def bind_err_Inr)

lemma generate_priors_inverse_masked:
  assumes gp: "generate_priors lib tokens m el mc max_len min_len = Inr P"
    and i: "Suc i < length tokens"
    and inv: "inverse_tokens lib (tokens ! i) = Some u" and u: "0 \<le> u"
  shows "neg_at P (Suc i) (nat u)"
  using gp
proof (rule generate_priors_cases)
  fix P0 st
  assume loop: "prior_loop lib (int (length tokens)) max_len min_len
       \<lparr>priors = P0, trig_descendant = False, trig_dangling = 0, dangling = 1\<rparr>
       (enumerate 0 tokens) = Inr st" and P: "P = priors st"
  from i have "i < length tokens" by simp
  with loop show ?thesis
  proof (rule prior_loop_split)
    fix sj sj'
    assume step: "prior_step lib (int (length tokens)) max_len min_len sj (0 + i, tokens ! i) = Inr sj'"
      and rest: "prior_loop lib (int (length tokens)) max_len min_len sj'
        (enumerate (Suc (0 + i)) (drop (Suc i) tokens)) = Inr st"
    from i have "int i < int (length tokens) - 1" by simp
    with step inv u have "neg_at (priors sj') (Suc i) (nat u)"
      by (simp add: prior_step_hits_inverse)
    with rest P show ?thesis by (simp add: prior_loop_keeps)
  qed
qed

lemma generate_priors_trig_masked:
  assumes gp: "generate_priors lib tokens m el mc max_len min_len = Inr P"
    and i: "Suc i < length tokens"
    and desc: "fst (fold (\<lambda>t s. prior_trig lib s t) (take (Suc i) tokens) (False, 0))"
    and c: "c \<in> set (trig_tokens lib)" "0 \<le> c"
  shows "neg_at P (Suc i) (nat c)"
  using gp
proof (rule generate_priors_cases)
  fix P0 st
  assume loop: "prior_loop lib (int (length tokens)) max_len min_len
       \<lparr>priors = P0, trig_descendant = False, trig_dangling = 0, dangling = 1\<rparr>
       (enumerate 0 tokens) = Inr st" and P: "P = priors st"
  from i have "i < length tokens" by simp
  with loop show ?thesis
  proof (rule prior_loop_split)
    fix sj sj'
    assume pre: "prior_loop lib (int (length tokens)) max_len min_len
        \<lparr>priors = P0, trig_descendant = False, trig_dangling = 0, dangling = 1\<rparr>
        (enumerate 0 (take i tokens)) = Inr sj"
      and step: "prior_step lib (int (length tokens)) max_len min_len sj (0 + i, tokens ! i) = Inr sj'"
      and rest: "prior_loop lib (int (length tokens)) max_len min_len sj'
        (enumerate (Suc (0 + i)) (drop (Suc i) tokens)) = Inr st"
    from i have lt: "int i < int (length tokens) - 1" by simp
    from i have "int (0 + length (take i tokens)) \<le> int (length tokens) - 1" by simp
    from prior_loop_state [OF pre this] have
      sj: "(trig_descendant sj, trig_dangling sj) =
         fold (\<lambda>t s. prior_trig lib s t) (take i tokens) (False, 0)" by simp
    from i have "take (Suc i) tokens = take i tokens @ [tokens ! i]"
      by (simp add: take_Suc_conv_app_nth)
    with desc sj have "fst (prior_trig lib (trig_descendant sj, trig_dangling sj) (tokens ! i))"
      by simp
    with step lt c have "neg_at (priors sj') (Suc i) (nat c)"
      by (simp add: prior_step_hits_trig)
    with rest P show ?thesis by (simp add: prior_loop_keeps)
  qed
qed

lemma check_trig_loop_fold:
  "library_agrees lib S ts \<Longrightarrow>
   check_trig_loop S s (map (token_name lib) ts) \<longleftrightarrow>
     (\<exists>j < length ts. ts ! j \<in> set (trig_tokens lib) \<and>
        fst (fold (\<lambda>t s. prior_trig lib s t) (take j ts) s))"
proof (induction ts arbitrary: s)
  case Nil
  then show ?case by simp
next
  case (Cons t ts)
  obtain desc td where s: "s = (desc, td)" by (cases s)
  from Cons.prems have ag: "library_agrees lib S ts"
    and tr: "t \<in> set (trig_tokens lib) \<longleftrightarrow> token_name lib t \<in> set TRIG_TOKENS"
    and bi: "t \<in> set (binary_tokens lib) \<longleftrightarrow> token_name lib t \<in> BINARY_TOKENS S"
    and un: "t \<in> set (unary_tokens lib) \<longleftrightarrow> token_name lib t \<in> UNARY_TOKENS S"
    by (auto simp: library_agrees_def)
  show ?case
  proof (cases "t \<in> set (trig_tokens lib) \<and> desc")
    case True
    then have "check_trig_loop S s (map (token_name lib) (t # ts))"
      using tr by (simp add: s check_trig_step_def)
    moreover from True have "\<exists>j < length (t # ts). (t # ts) ! j \<in> set (trig_tokens lib) \<and>
        fst (fold (\<lambda>t s. prior_trig lib s t) (take j (t # ts)) s)"
      by (intro exI [of _ 0]) (simp add: s)
    ultimately show ?thesis by simp
  next
    case False
    then have step: "check_trig_step S s (token_name lib t) = Some (prior_trig lib s t)"
      using tr bi un by (auto simp: s check_trig_step_def prior_trig_def Let_def)
    from False have z: "\<not> (t \<in> set (trig_tokens lib) \<and> fst s)" by (simp add: s)
    show ?thesis
      using z by (simp add: step Cons.IH [OF ag] ex_less_Suc_conv) blast
  qed
qed

lemma permitted_no_trig:
  assumes gp: "generate_priors lib tokens m el mc max_len min_len = Inr P"
    and ag: "library_agrees lib S tokens" and pm: "permitted P tokens"
  shows "\<not> check_trig S (map (token_name lib) tokens)"
proof
  assume "check_trig S (map (token_name lib) tokens)"
  with check_trig_loop_fold [OF ag, of "(False, 0)"] obtain j where
    j: "j < length tokens" and tj: "tokens ! j \<in> set (trig_tokens lib)"
    and d: "fst (fold (\<lambda>t s. prior_trig lib s t) (take j tokens) (False, 0))"
    by (auto simp: check_trig_def)
  from d obtain i where ji: "j = Suc i" by (cases j) auto
  from ag j have "0 \<le> tokens ! j" by (auto simp: library_agrees_def)
  with generate_priors_trig_masked [OF gp, of i "tokens ! j"] j tj d ji
  have "neg_at P j (nat (tokens ! j))" by simp
  with pm j show False by (simp add: permitted_def neg_at_def)
qed

lemma permitted_no_inv:
  assumes gp: "generate_priors lib tokens m el mc max_len min_len = Inr P"
    and ag: "library_agrees lib S tokens" and pm: "permitted P tokens"
  shows "\<not> check_inv (map (token_name lib) tokens)"
proof
  assume "check_inv (map (token_name lib) tokens)"
  then obtain i where i: "Suc i < length tokens"
    and inv: "inverse_of (token_name lib (tokens ! i)) = Some (token_name lib (tokens ! Suc i))"
    by (auto simp: check_inv_adjacent)
  from i have "tokens ! i \<in> set tokens" "tokens ! Suc i \<in> set tokens" by simp_all
  with ag inv have it: "inverse_tokens lib (tokens ! i) = Some (tokens ! Suc i)"
    and nn: "0 \<le> tokens ! Suc i"
    by (auto simp: library_agrees_def)
  from generate_priors_inverse_masked [OF gp i it nn]
  have "neg_at P (Suc i) (nat (tokens ! Suc i))" .
  with pm i show False by (simp add: permitted_def neg_at_def)
qed

section \<open>The prior matrix on the scenario library\<close>

lemmas scenario_eval =
  generate_priors_def bind_err_def set_cells_def set_cell_def np_index_def prior_step_def
  prior_trig_def late_mask_def scenario_library_def Let_def eval_nat_numeral


text \<open>
  C5. Past the midpoint of \<open>max_len\<close> the prior masks the binary tokens at the next
  position when \<open>dangling \<ge> remaining - 1\<close>. The branch for the unary tokens
  (\<open>elif dangling == remaining\<close>) is never reached, because its condition implies the
  condition of the branch before it. For the tokens \<open>[add, x1, x1]\<close> with
  \<open>max_len = 3\<close> the first step has \<open>dangling = remaining = 2\<close>: row 1 masks the
  binary token \<open>add\<close> (column 2) and leaves every unary token (columns 3 to 6) at 0.
\<close>

theorem late_length_unary_not_masked:
  "late_mask scenario_library 3 0 2 = Some (binary_tokens scenario_library) \<and>
   generate_priors scenario_library [2, 0, 0] 3 3 0 3 1 =
     Inr [[NegInf, NegInf, Zero, Zero, Zero, Zero, Zero],
          [Zero, Zero, NegInf, Zero, Zero, Zero, Zero],
          [Zero, Zero, NegInf, Zero, Zero, Zero, Zero]]"
  by (simp add: scenario_eval)

text \<open>
  When the library agrees with the name tables, a sequence that the prior matrix
  permits at every position passes \<open>check_inv\<close> and \<open>check_trig\<close>, completed or not.
\<close>

lemma permitted_name_checks:
  "generate_priors lib tokens m el mc max_len min_len = Inr P \<Longrightarrow>
   library_agrees lib S tokens \<Longrightarrow> permitted P tokens \<Longrightarrow>
   \<not> check_inv (map (token_name lib) tokens) \<and> \<not> check_trig S (map (token_name lib) tokens)"
  by (simp add: permitted_no_inv permitted_no_trig)




section \<open>The expression length of \<open>DEAP_to_tokens\<close>\<close>


lemma int32_store_scenario:
  "int32_store 0 = Inr 0" "int32_store 1 = Inr 1" "int32_store 2 = Inr 2"
  by (simp_all add: int32_store_def)

lemma map_err_Inr_length: "map_err f xs = Inr ys \<Longrightarrow> length ys = length xs"
  by (induction xs arbitrary: ys) (auto simp: bind_err_Inr)

lemma cumsum_length [simp]: "length (cumsum acc xs) = length xs"
  by (induction xs arbitrary: acc) simp_all

lemma cumsum_nth: "k < length xs \<Longrightarrow> cumsum acc xs ! k = acc + sum_list (take (Suc k) xs)"
proof (induction xs arbitrary: acc k)
  case Nil
  then show ?case by simp
next
  case (Cons x xs)
  then show ?case by (cases k) (simp_all add: add.assoc)
qed

lemma dangling_of_length [simp]: "length (dangling_of ars) = length ars"
  by (simp add: dangling_of_def)

lemma dangling_of_nth:
  "k < length ars \<Longrightarrow> dangling_of ars ! k = running_balance ars (Suc k)"
  by (simp add: dangling_of_def running_balance_def cumsum_nth take_map)

lemma first_true_Some:
  "first_true bs = Some i \<longleftrightarrow> i < length bs \<and> bs ! i \<and> (\<forall>j < i. \<not> bs ! j)"
proof (induction bs arbitrary: i)
  case Nil
  then show ?case by simp
next
  case (Cons b bs)
  show ?case
  proof (cases b)
    case True
    then show ?thesis by (cases i) auto
  next
    case False
    then show ?thesis
      by (cases i) (auto simp: Cons.IH all_less_Suc_conv)
  qed
qed

lemma first_true_None: "first_true bs = None \<longleftrightarrow> (\<forall>j < length bs. \<not> bs ! j)"
  by (induction bs) (auto simp: all_less_Suc_conv)

lemma first_zero_at_dangling:
  "first_zero_at ars (Suc k) \<longleftrightarrow>
     first_true (map (\<lambda>d. d = 0) (dangling_of ars)) = Some k"
proof -
  have "(\<forall>q < Suc k. 1 \<le> q \<longrightarrow> running_balance ars q \<noteq> 0) \<longleftrightarrow>
        (\<forall>j < k. running_balance ars (Suc j) \<noteq> 0)"
    by (simp add: all_less_Suc_conv)
  then show ?thesis
    unfolding first_zero_at_def first_true_Some
    by (auto simp: dangling_of_nth Suc_le_eq)
qed

lemma DEAP_to_tokens_cases:
  assumes "DEAP_to_tokens lib ind n = Inr (toks, el)"
  obtains ts ars k where
    "map_err (token_of_node lib) (take (min (length ind) n) ind) = Inr ts"
    "toks = ts @ replicate (n - min (length ind) n) 0"
    "arities_of lib toks = Inr ars"
    "np_argmax (map (\<lambda>d. d = 0) (dangling_of ars)) = Inr k"
    "el = 1 + k"
  using assms unfolding DEAP_to_tokens_def Let_def bind_err_Inr by auto

text \<open>
  C4, amended. The token array returned by \<open>DEAP_to_tokens\<close> has \<open>tokens_size\<close>
  entries, and whenever its running balance reaches zero at some position,
  \<open>expr_length\<close> is the first such position (1-indexed), whatever padding follows.
\<close>

theorem expr_length_first_zero:
  "DEAP_to_tokens lib ind n = Inr (toks, el) \<Longrightarrow>
   length toks = n \<and>
   (\<exists>ars. arities_of lib toks = Inr ars \<and>
      ((\<exists>p. first_zero_at ars p) \<longrightarrow> first_zero_at ars el))"
proof (erule DEAP_to_tokens_cases)
  fix ts ars k
  assume ts: "map_err (token_of_node lib) (take (min (length ind) n) ind) = Inr ts"
    and toks: "toks = ts @ replicate (n - min (length ind) n) 0"
    and ars: "arities_of lib toks = Inr ars"
    and k: "np_argmax (map (\<lambda>d. d = 0) (dangling_of ars)) = Inr k"
    and el: "el = 1 + k"
  from map_err_Inr_length [OF ts] toks have len: "length toks = n" by auto
  have "first_zero_at ars el" if "first_zero_at ars p" for p
  proof -
    from that have "1 \<le> p" by (simp add: first_zero_at_def)
    then obtain j where p: "p = Suc j" by (cases p) auto
    with that have "first_true (map (\<lambda>d. d = 0) (dangling_of ars)) = Some j"
      by (simp add: first_zero_at_dangling)
    with k have "k = j" by (auto simp: np_argmax_def split: if_splits)
    with el p that show ?thesis by simp
  qed
  with len ars show ?thesis by blast
qed

text \<open>
  C4, as stated, at \<open>add(x1, x1)\<close> with \<open>tokens_size = 2\<close>: the array is \<open>[add, x1]\<close>,
  its balance is 2 and then 1 and never zero, and \<open>expr_length\<close> is 1.
\<close>

theorem expr_length_truncated:
  "DEAP_to_tokens scenario_library scenario_sum 2 = Inr ([2, 0], 1) \<and>
   arities_of scenario_library [2, 0] = Inr [2, 0] \<and>
   running_balance [2, 0] 1 = 2 \<and> running_balance [2, 0] 2 = 1 \<and>
   \<not> first_zero_at [2, 0] 1"
  by (simp add: DEAP_to_tokens_def scenario_sum_def scenario_library_def token_of_node_def assigned_value_def
      bind_err_def arities_of_def dangling_of_def np_argmax_def int_of_str_def int32_store_scenario
      unsigned_of_str_def digit_value_def first_zero_at_def running_balance_def
      eval_nat_numeral)

theorem expr_length_first_zero_witness:
  "DEAP_to_tokens scenario_library scenario_sum 5 = Inr ([2, 0, 0, 0, 0], 3) \<and>
   arities_of scenario_library [2, 0, 0, 0, 0] = Inr [2, 0, 0, 0, 0] \<and>
   first_zero_at [2, 0, 0, 0, 0] 3"
proof -
  have a: "DEAP_to_tokens scenario_library scenario_sum 5 = Inr ([2, 0, 0, 0, 0], 3)"
    by (simp add: DEAP_to_tokens_def scenario_sum_def scenario_library_def token_of_node_def assigned_value_def
      bind_err_def arities_of_def dangling_of_def np_argmax_def int_of_str_def int32_store_scenario
      unsigned_of_str_def digit_value_def eval_nat_numeral)
  have b: "arities_of scenario_library [2, 0, 0, 0, 0] = Inr [2, 0, 0, 0, 0]"
    by (simp add: arities_of_def scenario_library_def bind_err_def)
  have c: "\<exists>p. first_zero_at [2, 0, 0, 0, 0] p"
    by (rule exI [of _ 3])
      (simp add: first_zero_at_def running_balance_def eval_nat_numeral all_less_Suc_conv)
  from expr_length_first_zero [OF a] b c show ?thesis using a by auto
qed

section \<open>The round trip through the codec\<close>










text \<open>
  A terminal whose name has the characters of \<open>mutable_const\<close> but is not the interned
  object (a tree read back from a pickle) is not recognised by the identity test, and
  \<open>DEAP_to_tokens\<close> raises on it; such a tree is not well formed.
\<close>

lemma uninterned_name_raises:
  "token_of_node lib (Terminal ''mutable_const'' v False) = Inl ValueError"
  by (simp add: token_of_node_def assigned_value_def int_of_str_def unsigned_of_str_def
      digit_value_def bind_err_def)


text \<open>A tree whose constant placeholders all hold 1.0 comes back unchanged.\<close>

lemma reset_const_ident:
  "\<forall>t \<in> set ind. \<forall>v. t = Terminal ''mutable_const'' v True \<longrightarrow> v = VNum 1 \<Longrightarrow>
   map reset_const ind = ind"
  by (induction ind) (auto simp: reset_const_def split: node.splits)









section \<open>The objective of the constant optimisation\<close>

text \<open>
  C2. Every call of \<open>obj\<close> raises \<open>UnboundLocalError\<close> in its first statement, before
  the \<open>try\<close> is reached, whatever the constants and the training data are: it returns
  neither the error of the individual nor the largest float.
\<close>

theorem obj_always_raises:
  "obj env consts = Inl UnboundLocalError"
  by (simp add: obj_def obj_frame_def load_local_def bind_err_def)

section \<open>The prior against the validator\<close>



















lemma running_balance_0 [simp]: "running_balance ars 0 = 1"
  by (simp add: running_balance_def)



















end
